theory Spec2Isabelle
  imports Complex_Main "HOL-Library.Word"
begin

section \<open>Data model\<close>

text \<open>
  A numpy array of shape \<open>(h, w)\<close> (or \<open>(h, w, 3)\<close> with the three channels kept together
  as one element) is a shape and an indexing function: \<open>elem a y x\<close> is \<open>a[y, x]\<close>. The code
  reads an element only behind its bounds test \<open>0 <= x < w and 0 <= y < h\<close>.
\<close>

record 'a ndarray =
  nrows :: nat
  ncols :: nat
  elem :: "nat \<Rightarrow> nat \<Rightarrow> 'a"

text \<open>A pixel is what \<open>cv2.split\<close> separates: the channels \<open>(b, g, r)\<close>, 8 bits each.\<close>

type_synonym pixel = "8 word \<times> 8 word \<times> 8 word"
type_synonym image = "pixel ndarray"
type_synonym mask = "8 word ndarray"

text \<open>
  A contour is OpenCV's array of shape \<open>(N, 1, 2)\<close> with 32-bit signed coordinates;
  \<open>contour.reshape(-1, 2)\<close> is its list of \<open>N\<close> points \<open>(x, y)\<close>.
\<close>

type_synonym point = "int \<times> int"
type_synonym contour = "point list"

text \<open>The dataclass of \<open>line_finder.py\<close>.\<close>

record DetectedLine =
  x1 :: int
  y1 :: int
  x2 :: int
  y2 :: int
  length_l :: real
  thickness :: real

text \<open>
  The OpenCV operations the two files call are not part of the repository; the model takes
  them as a parameter. \<open>minAreaRect\<close> is the size component \<open>rect[1]\<close> of the rotated
  rectangle, the only one the code reads. The floating point numbers OpenCV returns are
  finite and are taken as the real numbers they denote.
\<close>

record cv2 =
  findContours :: "mask \<Rightarrow> contour list"
  contourArea :: "contour \<Rightarrow> real"
  boundingRect :: "contour \<Rightarrow> int \<times> int \<times> int \<times> int"
  minAreaRect :: "contour \<Rightarrow> real \<times> real"
  convexHull :: "contour \<Rightarrow> contour"

definition WHITE_MIN :: "8 word" where "WHITE_MIN = 240"
definition BLACK_MAX :: "8 word" where "BLACK_MAX = 40"
definition MIN_LINE_LENGTH :: real where "MIN_LINE_LENGTH = 30"
definition MIN_LINE_THICKNESS :: real where "MIN_LINE_THICKNESS = 2"
definition MAX_LINE_THICKNESS :: real where "MAX_LINE_THICKNESS = 15"

section \<open>line_finder.py\<close>

subsection \<open>Masks\<close>

definition get_white_mask :: "image \<Rightarrow> mask" where
  "get_white_mask img =
     \<lparr> nrows = nrows img, ncols = ncols img,
       elem = (\<lambda>y x. case elem img y x of (b, g, r) \<Rightarrow>
                 if r \<ge> WHITE_MIN \<and> g \<ge> WHITE_MIN \<and> b \<ge> WHITE_MIN then 255 else 0) \<rparr>"

definition get_black_mask :: "image \<Rightarrow> mask" where
  "get_black_mask img =
     \<lparr> nrows = nrows img, ncols = ncols img,
       elem = (\<lambda>y x. case elem img y x of (b, g, r) \<Rightarrow>
                 if r \<le> BLACK_MAX \<and> g \<le> BLACK_MAX \<and> b \<le> BLACK_MAX then 255 else 0) \<rparr>"

subsection \<open>Endpoints: the farthest pair\<close>

text \<open>
  The coordinates are numpy \<open>int32\<close> scalars, so the difference, the square and the sum
  of \<open>(pt1[0] - pt2[0])**2 + (pt1[1] - pt2[1])**2\<close> wrap around at 32 bits.
\<close>

definition i32 :: "int \<Rightarrow> int" where
  "i32 v = (v + 2 ^ 31) mod 2 ^ 32 - 2 ^ 31"

definition sq_sum32 :: "point \<Rightarrow> point \<Rightarrow> int" where
  "sq_sum32 pt1 pt2 =
     i32 (i32 (i32 (fst pt1 - fst pt2) * i32 (fst pt1 - fst pt2))
        + i32 (i32 (snd pt1 - snd pt2) * i32 (snd pt1 - snd pt2)))"

text \<open>
  \<open>np.sqrt\<close> of a negative integer is NaN (here \<open>None\<close>), and every comparison with NaN is
  false. On the non-negative 32-bit integers the double precision square root is strictly
  increasing, so comparing the roots as real numbers decides \<open>dist > max_dist\<close> as the
  code does.
\<close>

definition np_sqrt :: "int \<Rightarrow> real option" where
  "np_sqrt v = (if v < 0 then None else Some (sqrt (real_of_int v)))"

text \<open>The loop state is \<open>(max_dist, p1, p2)\<close>.\<close>

type_synonym far_state = "real \<times> point \<times> point"

fun inner_loop :: "point \<Rightarrow> point list \<Rightarrow> far_state \<Rightarrow> far_state" where
  "inner_loop pt1 [] s = s"
| "inner_loop pt1 (pt2 # rest) (max_dist, p1, p2) =
     (case np_sqrt (sq_sum32 pt1 pt2) of
        None \<Rightarrow> inner_loop pt1 rest (max_dist, p1, p2)
      | Some dist' \<Rightarrow>
          if dist' > max_dist
          then inner_loop pt1 rest (dist', pt1, pt2)
          else inner_loop pt1 rest (max_dist, p1, p2))"

fun outer_loop :: "point list \<Rightarrow> far_state \<Rightarrow> far_state" where
  "outer_loop [] s = s"
| "outer_loop (pt1 # rest) s = outer_loop rest (inner_loop pt1 rest s)"

definition find_line_endpoints :: "cv2 \<Rightarrow> contour \<Rightarrow> point \<times> point" where
  "find_line_endpoints cv contour =
     (let points = contour in
      if length points < 2 then ((0, 0), (0, 0))
      else
        let hull_points = (if length points > 4 then convexHull cv contour else points) in
        case outer_loop hull_points (0, hd points, last points) of
          (max_dist, p1, p2) \<Rightarrow> (p1, p2))"

subsection \<open>Termination check\<close>

text \<open>
  Python's \<open>int()\<close> of a float truncates towards zero. The double precision arithmetic of
  the normalised direction and of the stepped position is modelled by real arithmetic.
\<close>

definition py_int :: "real \<Rightarrow> int" where
  "py_int v = (if v \<ge> 0 then \<lfloor>v\<rfloor> else \<lceil>v\<rceil>)"

fun has_black_ahead_loop ::
  "mask \<Rightarrow> int \<Rightarrow> int \<Rightarrow> real \<Rightarrow> real \<Rightarrow> int list \<Rightarrow> bool" where
  "has_black_ahead_loop black_mask px py dir_x dir_y [] = False"
| "has_black_ahead_loop black_mask px py dir_x dir_y (dist' # rest) =
     (let check_x = py_int (real_of_int px + dir_x * real_of_int dist');
          check_y = py_int (real_of_int py + dir_y * real_of_int dist') in
      if 0 \<le> check_x \<and> check_x < int (ncols black_mask)
         \<and> 0 \<le> check_y \<and> check_y < int (nrows black_mask)
         \<and> elem black_mask (nat check_y) (nat check_x) > 0
      then True
      else has_black_ahead_loop black_mask px py dir_x dir_y rest)"

definition has_black_ahead :: "mask \<Rightarrow> int \<Rightarrow> int \<Rightarrow> int \<Rightarrow> real \<Rightarrow> real \<Rightarrow> bool" where
  "has_black_ahead black_mask check_radius px py dir_x dir_y =
     has_black_ahead_loop black_mask px py dir_x dir_y [3 .. check_radius - 1]"

definition check_black_at_ends :: "image \<Rightarrow> point \<Rightarrow> point \<Rightarrow> int \<times> int \<Rightarrow> int \<Rightarrow> bool" where
  "check_black_at_ends img p1 p2 direction check_radius =
     (let black_mask = get_black_mask img in
      case direction of (dx0, dy0) \<Rightarrow>
        let len = sqrt (real_of_int (dx0 * dx0 + dy0 * dy0)) in
        if len = 0 then True
        else
          let dx = real_of_int dx0 / len; dy = real_of_int dy0 / len;
              end1_ok = has_black_ahead black_mask check_radius (fst p1) (snd p1) (- dx) (- dy);
              end2_ok = has_black_ahead black_mask check_radius (fst p2) (snd p2) dx dy
          in end1_ok \<or> end2_ok)"

subsection \<open>The pipeline\<close>

text \<open>
  Lines 111 to 134 of \<open>find_lines\<close>: the measurements of one contour and the shape tests.
  \<open>None\<close> is a \<open>continue\<close>; a surviving contour yields \<open>(thickness, length)\<close>.
\<close>

definition shape_filter :: "cv2 \<Rightarrow> contour \<Rightarrow> (real \<times> real) option" where
  "shape_filter cv contour =
     (let area = contourArea cv contour in
      if area < 50 then None
      else
        case boundingRect cv contour of (x, y, w, h) \<Rightarrow>
        let (thickness_v, length_v) =
              (if length contour \<ge> 5
               then (case minAreaRect cv contour of (rect_w, rect_h) \<Rightarrow>
                       (min rect_w rect_h, max rect_w rect_h))
               else (real_of_int (min w h), real_of_int (max w h))) in
        if thickness_v < MIN_LINE_THICKNESS \<or> thickness_v > MAX_LINE_THICKNESS then None
        else if length_v < MIN_LINE_LENGTH then None
        else
          let aspect_ratio = length_v / max thickness_v 1 in
          if aspect_ratio < 3 then None
          else Some (thickness_v, length_v))"

text \<open>The whole loop body: lines 111 to 147.\<close>

definition find_lines_body :: "cv2 \<Rightarrow> image \<Rightarrow> contour \<Rightarrow> DetectedLine option" where
  "find_lines_body cv img contour =
     (case shape_filter cv contour of
        None \<Rightarrow> None
      | Some (thickness_v, length_v) \<Rightarrow>
          (case find_line_endpoints cv contour of (p1, p2) \<Rightarrow>
             let direction = (fst p2 - fst p1, snd p2 - snd p1) in
             if \<not> check_black_at_ends img p1 p2 direction 20 then None
             else Some \<lparr> x1 = fst p1, y1 = snd p1, x2 = fst p2, y2 = snd p2,
                         length_l = length_v, thickness = thickness_v \<rparr>))"

fun find_lines_loop ::
  "cv2 \<Rightarrow> image \<Rightarrow> contour list \<Rightarrow> DetectedLine list \<Rightarrow> DetectedLine list" where
  "find_lines_loop cv img [] valid_lines = valid_lines"
| "find_lines_loop cv img (contour # rest) valid_lines =
     (case find_lines_body cv img contour of
        None \<Rightarrow> find_lines_loop cv img rest valid_lines
      | Some line \<Rightarrow> find_lines_loop cv img rest (valid_lines @ [line]))"

definition find_lines :: "cv2 \<Rightarrow> image \<Rightarrow> DetectedLine list" where
  "find_lines cv img =
     (let white_mask = get_white_mask img;
          contours = findContours cv white_mask
      in find_lines_loop cv img contours [])"

section \<open>main.py: class LineDetector\<close>

definition LD_get_white_mask :: "image \<Rightarrow> mask" where
  "LD_get_white_mask img =
     \<lparr> nrows = nrows img, ncols = ncols img,
       elem = (\<lambda>y x. case elem img y x of (b, g, r) \<Rightarrow>
                 if r \<ge> WHITE_MIN \<and> g \<ge> WHITE_MIN \<and> b \<ge> WHITE_MIN then 255 else 0) \<rparr>"

definition LD_get_black_mask :: "image \<Rightarrow> mask" where
  "LD_get_black_mask img =
     \<lparr> nrows = nrows img, ncols = ncols img,
       elem = (\<lambda>y x. case elem img y x of (b, g, r) \<Rightarrow>
                 if r \<le> BLACK_MAX \<and> g \<le> BLACK_MAX \<and> b \<le> BLACK_MAX then 255 else 0) \<rparr>"

text \<open>Here the hull is computed before \<open>max_dist\<close>, \<open>p1\<close> and \<open>p2\<close> are initialised.\<close>

definition LD_find_line_endpoints :: "cv2 \<Rightarrow> contour \<Rightarrow> point \<times> point" where
  "LD_find_line_endpoints cv contour =
     (let points = contour in
      if length points < 2 then ((0, 0), (0, 0))
      else
        let hull_points = (if length points > 4 then convexHull cv contour else points);
            s0 = (0, hd points, last points) in
        case outer_loop hull_points s0 of
          (max_dist, p1, p2) \<Rightarrow> (p1, p2))"

definition LD_check_black_at_ends ::
  "image \<Rightarrow> point \<Rightarrow> point \<Rightarrow> int \<times> int \<Rightarrow> int \<Rightarrow> bool" where
  "LD_check_black_at_ends img p1 p2 direction check_radius =
     (let black_mask = LD_get_black_mask img in
      case direction of (dx0, dy0) \<Rightarrow>
        let len = sqrt (real_of_int (dx0 * dx0 + dy0 * dy0)) in
        if len = 0 then True
        else
          let dx = real_of_int dx0 / len; dy = real_of_int dy0 / len;
              end1_ok = has_black_ahead black_mask check_radius (fst p1) (snd p1) (- dx) (- dy);
              end2_ok = has_black_ahead black_mask check_radius (fst p2) (snd p2) dx dy
          in end1_ok \<or> end2_ok)"

text \<open>
  Lines 101 to 123 of \<open>detect\<close>. The bounding box is computed only for a contour of fewer
  than five points.
\<close>

definition LD_shape_filter :: "cv2 \<Rightarrow> contour \<Rightarrow> (real \<times> real) option" where
  "LD_shape_filter cv contour =
     (let area = contourArea cv contour in
      if area < 50 then None
      else
        let (thickness_v, length_v) =
              (if length contour \<ge> 5
               then (case minAreaRect cv contour of (rect_w, rect_h) \<Rightarrow>
                       (min rect_w rect_h, max rect_w rect_h))
               else (case boundingRect cv contour of (x, y, w, h) \<Rightarrow>
                       (real_of_int (min w h), real_of_int (max w h)))) in
        if thickness_v < MIN_LINE_THICKNESS \<or> thickness_v > MAX_LINE_THICKNESS then None
        else if length_v < MIN_LINE_LENGTH then None
        else
          let aspect_ratio = length_v / max thickness_v 1 in
          if aspect_ratio < 3 then None
          else Some (thickness_v, length_v))"

text \<open>The tuples of \<open>valid_lines\<close> are \<open>(x1, y1, x2, y2, length)\<close>.\<close>

type_synonym line_tuple = "int \<times> int \<times> int \<times> int \<times> real"

definition detect_body :: "cv2 \<Rightarrow> image \<Rightarrow> contour \<Rightarrow> line_tuple option" where
  "detect_body cv img contour =
     (case LD_shape_filter cv contour of
        None \<Rightarrow> None
      | Some (thickness_v, length_v) \<Rightarrow>
          (case LD_find_line_endpoints cv contour of (p1, p2) \<Rightarrow>
             let direction = (fst p2 - fst p1, snd p2 - snd p1) in
             if \<not> LD_check_black_at_ends img p1 p2 direction 20 then None
             else Some (fst p1, snd p1, fst p2, snd p2, length_v)))"

fun detect_loop ::
  "cv2 \<Rightarrow> image \<Rightarrow> contour list \<Rightarrow> line_tuple list \<Rightarrow> line_tuple list" where
  "detect_loop cv img [] valid_lines = valid_lines"
| "detect_loop cv img (contour # rest) valid_lines =
     (case detect_body cv img contour of
        None \<Rightarrow> detect_loop cv img rest valid_lines
      | Some line \<Rightarrow> detect_loop cv img rest (valid_lines @ [line]))"

text \<open>
  Python's \<open>max(items, key=...)\<close> on a non-empty list: the running best is replaced only
  by an item whose key is strictly greater.
\<close>

fun py_max :: "('a \<Rightarrow> real) \<Rightarrow> 'a \<Rightarrow> 'a list \<Rightarrow> 'a" where
  "py_max key best [] = best"
| "py_max key best (item # rest) =
     (if key item > key best then py_max key item rest else py_max key best rest)"

definition LD_valid_lines :: "cv2 \<Rightarrow> image \<Rightarrow> line_tuple list" where
  "LD_valid_lines cv img =
     (let white_mask = LD_get_white_mask img;
          contours = findContours cv white_mask
      in detect_loop cv img contours [])"

text \<open>Lines 133 to 138: \<open>None\<close> for no valid line, otherwise the four coordinates of the best.\<close>

definition select_best :: "line_tuple list \<Rightarrow> (int \<times> int \<times> int \<times> int) option" where
  "select_best valid_lines =
     (case valid_lines of
        [] \<Rightarrow> None
      | first # rest \<Rightarrow>
          (case py_max (\<lambda>l. snd (snd (snd (snd l)))) first rest of
             (b0, b1, b2, b3, b4) \<Rightarrow> Some (b0, b1, b2, b3)))"

definition detect :: "cv2 \<Rightarrow> image \<Rightarrow> (int \<times> int \<times> int \<times> int) option" where
  "detect cv img = select_best (LD_valid_lines cv img)"

section \<open>Notions used to state the properties\<close>

text \<open>
  The pixel reached from \<open>p\<close> after \<open>t\<close> steps along the vector \<open>u\<close>, truncated towards zero
  as the code does; whether a position is inside an array; whether the image is dark or
  bright there (for a position inside the image).
\<close>

definition stepped :: "point \<Rightarrow> real \<times> real \<Rightarrow> int \<Rightarrow> point" where
  "stepped p u t =
     (py_int (real_of_int (fst p) + fst u * real_of_int t),
      py_int (real_of_int (snd p) + snd u * real_of_int t))"

definition in_bounds :: "'a ndarray \<Rightarrow> point \<Rightarrow> bool" where
  "in_bounds a q = (0 \<le> fst q \<and> fst q < int (ncols a) \<and> 0 \<le> snd q \<and> snd q < int (nrows a))"

definition is_dark :: "image \<Rightarrow> point \<Rightarrow> bool" where
  "is_dark img q =
     (case elem img (nat (snd q)) (nat (fst q)) of (b, g, r) \<Rightarrow> r \<le> 40 \<and> g \<le> 40 \<and> b \<le> 40)"

definition is_bright :: "image \<Rightarrow> point \<Rightarrow> bool" where
  "is_bright img q =
     (case elem img (nat (snd q)) (nat (fst q)) of (b, g, r) \<Rightarrow> r \<ge> 240 \<and> g \<ge> 240 \<and> b \<ge> 240)"

text \<open>One end succeeds: some distance from 3 up to, not including, the radius hits a dark
  pixel inside the image.\<close>

definition end_succeeds :: "image \<Rightarrow> point \<Rightarrow> real \<times> real \<Rightarrow> int \<Rightarrow> bool" where
  "end_succeeds img p u check_radius =
     (\<exists>t \<in> {3 ..< check_radius}. in_bounds img (stepped p u t) \<and> is_dark img (stepped p u t))"


text \<open>The exact squared distance and the Euclidean distance of two points.\<close>

definition sq_dist :: "point \<Rightarrow> point \<Rightarrow> int" where
  "sq_dist p q = (fst p - fst q)\<^sup>2 + (snd p - snd q)\<^sup>2"

definition euclid :: "point \<Rightarrow> point \<Rightarrow> real" where
  "euclid p q = sqrt (real_of_int (sq_dist p q))"

text \<open>Every squared distance between two boundary points fits a signed 32-bit integer.\<close>

definition fits_int32 :: "contour \<Rightarrow> bool" where
  "fits_int32 c = (\<forall>p \<in> set c. \<forall>q \<in> set c. sq_dist p q < 2 ^ 31)"

text \<open>
  What \<open>cv2.convexHull\<close> is taken to return: points of the boundary such that every point
  of the boundary is a convex combination of them.
\<close>

definition convex_comb :: "point list \<Rightarrow> (nat \<Rightarrow> real) \<Rightarrow> point \<Rightarrow> bool" where
  "convex_comb hs w p =
     ((\<forall>i < length hs. 0 \<le> w i) \<and> (\<Sum>i < length hs. w i) = 1
      \<and> real_of_int (fst p) = (\<Sum>i < length hs. w i * real_of_int (fst (hs ! i)))
      \<and> real_of_int (snd p) = (\<Sum>i < length hs. w i * real_of_int (snd (hs ! i))))"

definition is_convex_hull :: "contour \<Rightarrow> contour \<Rightarrow> bool" where
  "is_convex_hull hs c = (set hs \<subseteq> set c \<and> (\<forall>p \<in> set c. \<exists>w. convex_comb hs w p))"

text \<open>The exhaustive pairwise search of \<open>find_line_endpoints\<close> over a given point list.\<close>

definition pairwise_search :: "point list \<Rightarrow> contour \<Rightarrow> point \<times> point" where
  "pairwise_search hull_points points =
     (case outer_loop hull_points (0, hd points, last points) of (max_dist, p1, p2) \<Rightarrow> (p1, p2))"

section \<open>Concrete inputs\<close>

text \<open>
  A 100 by 40 image, black but for a white bar of 50 by 4 pixels, and an all-white image.
\<close>

definition demo_img :: image where
  "demo_img =
     \<lparr> nrows = 40, ncols = 100,
       elem = (\<lambda>y x. if 10 \<le> y \<and> y \<le> 13 \<and> 20 \<le> x \<and> x \<le> 69
                       then (255, 255, 255) else (0, 0, 0)) \<rparr>"


text \<open>
  A stand-in for the OpenCV operations on these inputs: the contour of the bar as OpenCV
  traces it (its four corners), the polygon area by the shoelace formula, the upright
  bounding box, the extent of the points for the rotated rectangle, and a hull that keeps
  every point (right for a convex contour).
\<close>

fun shoelace :: "point \<Rightarrow> contour \<Rightarrow> int" where
  "shoelace first [] = 0"
| "shoelace first [p] = fst p * snd first - fst first * snd p"
| "shoelace first (p # q # rest) = (fst p * snd q - fst q * snd p) + shoelace first (q # rest)"

definition demo_contour :: contour where
  "demo_contour = [(20, 10), (20, 13), (69, 13), (69, 10)]"

definition demo_cv :: cv2 where
  "demo_cv =
     \<lparr> findContours = (\<lambda>m. if 10 < nrows m \<and> 20 < ncols m \<and> elem m 10 20 \<noteq> 0
                           then [demo_contour] else []),
       contourArea = (\<lambda>c. case c of [] \<Rightarrow> 0 | p # _ \<Rightarrow> \<bar>real_of_int (shoelace p c)\<bar> / 2),
       boundingRect = (\<lambda>c.
          let xs = map fst c; ys = map snd c;
              x0 = fold min xs (hd xs); y0 = fold min ys (hd ys);
              x1 = fold max xs (hd xs); y1 = fold max ys (hd ys)
          in (x0, y0, x1 - x0 + 1, y1 - y0 + 1)),
       minAreaRect = (\<lambda>c.
          let xs = map fst c; ys = map snd c
          in (real_of_int (fold max xs (hd xs) - fold min xs (hd xs)),
              real_of_int (fold max ys (hd ys) - fold min ys (hd ys)))),
       convexHull = (\<lambda>c. c) \<rparr>"

definition wide_contour :: contour where
  "wide_contour = [(0, 0), (46341, 0), (1, 0)]"

definition bent_contour :: contour where
  "bent_contour = [(0, 0), (0, 2), (2, 2), (2, 1), (4, 1), (4, 0)]"

definition bent_hull :: contour where
  "bent_hull = [(0, 0), (0, 2), (2, 2), (4, 1), (4, 0)]"

section \<open>Masks\<close>

lemma white_mask_elem:
  "(elem (get_white_mask img) y x \<noteq> 0) =
     (case elem img y x of (b, g, r) \<Rightarrow> r \<ge> 240 \<and> g \<ge> 240 \<and> b \<ge> 240)"
  by (simp add: get_white_mask_def WHITE_MIN_def split: prod.splits)

lemma black_mask_elem:
  "(elem (get_black_mask img) y x \<noteq> 0) =
     (case elem img y x of (b, g, r) \<Rightarrow> r \<le> 40 \<and> g \<le> 40 \<and> b \<le> 40)"
  by (simp add: get_black_mask_def BLACK_MAX_def split: prod.splits)

lemma LD_masks_eq: "LD_get_white_mask = get_white_mask" "LD_get_black_mask = get_black_mask"
  by (auto simp: fun_eq_iff LD_get_white_mask_def get_white_mask_def
        LD_get_black_mask_def get_black_mask_def)

lemma black_mask_dims [simp]:
  "nrows (get_black_mask img) = nrows img" "ncols (get_black_mask img) = ncols img"
  by (simp_all add: get_black_mask_def)

lemma white_mask_dims [simp]:
  "nrows (get_white_mask img) = nrows img" "ncols (get_white_mask img) = ncols img"
  by (simp_all add: get_white_mask_def)

lemma word8_gt0: "((w::8 word) > 0) = (w \<noteq> 0)"
  by (simp add: word_greater_zero_iff)

lemma bright_not_dark: "(240 :: 8 word) \<le> v \<Longrightarrow> v \<le> 40 \<Longrightarrow> False"
proof -
  assume "240 \<le> v" "v \<le> 40"
  then have "(240 :: 8 word) \<le> 40" by (rule order_trans)
  then show False by simp
qed



section \<open>Termination check\<close>

lemma has_black_ahead_loop_iff:
  "has_black_ahead_loop (get_black_mask img) px py dir_x dir_y ds =
     (\<exists>t \<in> set ds. in_bounds img (stepped (px, py) (dir_x, dir_y) t)
                  \<and> is_dark img (stepped (px, py) (dir_x, dir_y) t))"
  by (induction ds)
     (auto simp: Let_def in_bounds_def stepped_def is_dark_def word8_gt0 black_mask_elem)

lemma has_black_ahead_iff:
  "has_black_ahead (get_black_mask img) r px py dir_x dir_y =
     end_succeeds img (px, py) (dir_x, dir_y) r"
  unfolding has_black_ahead_def has_black_ahead_loop_iff end_succeeds_def
  by auto





text \<open>
  C10. No pixel is set in both masks, in either file; so a pixel that makes the termination
  check succeed is never a bright pixel.
\<close>

theorem masks_disjoint:
  "(elem (get_white_mask img) y x = 0 \<or> elem (get_black_mask img) y x = 0)
   \<and> (elem (LD_get_white_mask img) y x = 0 \<or> elem (LD_get_black_mask img) y x = 0)
   \<and> (has_black_ahead (get_black_mask img) r px py dir_x dir_y \<longrightarrow>
        (\<exists>t \<in> {3 ..< r}.
           in_bounds img (stepped (px, py) (dir_x, dir_y) t)
           \<and> is_dark img (stepped (px, py) (dir_x, dir_y) t)
           \<and> \<not> is_bright img (stepped (px, py) (dir_x, dir_y) t)
           \<and> elem (get_white_mask img) (nat (snd (stepped (px, py) (dir_x, dir_y) t)))
                 (nat (fst (stepped (px, py) (dir_x, dir_y) t))) = 0))"
proof -
  have d: "elem (get_white_mask img) y x = 0 \<or> elem (get_black_mask img) y x = 0" for y x
    using white_mask_elem [of img y x] black_mask_elem [of img y x]
    by (auto split: prod.splits dest: bright_not_dark)
  have nb: "\<not> is_bright img q" if "is_dark img q" for q
    using that unfolding is_dark_def is_bright_def
    by (auto split: prod.splits dest: bright_not_dark)
  have w0: "elem (get_white_mask img) (nat (snd q)) (nat (fst q)) = 0" if "is_dark img q" for q
    using nb [OF that] white_mask_elem [of img "nat (snd q)" "nat (fst q)"]
    unfolding is_bright_def by auto
  show ?thesis
    using d nb w0 unfolding has_black_ahead_iff end_succeeds_def LD_masks_eq
    by blast
qed

theorem masks_disjoint_witness:
  "has_black_ahead (get_black_mask demo_img) 20 20 12 (- 1) 0
   \<and> elem (get_white_mask demo_img) 12 17 = 0 \<and> elem (get_black_mask demo_img) 12 17 = 255
   \<and> elem (get_white_mask demo_img) 12 20 = 255 \<and> elem (get_black_mask demo_img) 12 20 = 0"
proof -
  have s: "stepped (20, 12) (- 1, 0) 3 = (17, 12)"
    by (simp add: stepped_def py_int_def)
  have "in_bounds demo_img (17, 12) \<and> is_dark demo_img (17, 12)"
    by (simp add: in_bounds_def is_dark_def demo_img_def)
  then have h: "has_black_ahead (get_black_mask demo_img) 20 20 12 (- 1) 0"
    unfolding has_black_ahead_iff end_succeeds_def using s
    by (intro bexI [of _ 3]) simp_all
  have e: "elem (get_white_mask demo_img) 12 17 = 0" "elem (get_black_mask demo_img) 12 17 = 255"
    "elem (get_white_mask demo_img) 12 20 = 255" "elem (get_black_mask demo_img) 12 20 = 0"
    by (simp_all add: get_white_mask_def get_black_mask_def demo_img_def WHITE_MIN_def BLACK_MAX_def)
  from masks_disjoint [of demo_img 12 17 20 20 12 "- 1" 0] h e show ?thesis
    by blast
qed

section \<open>Endpoints\<close>

text \<open>
  C9. A boundary of fewer than two points has the endpoints \<open>((0, 0), (0, 0))\<close>, in both
  files.
\<close>

theorem find_line_endpoints_degenerate:
  "length contour < 2 \<Longrightarrow>
     find_line_endpoints cv contour = ((0, 0), (0, 0))
     \<and> LD_find_line_endpoints cv contour = ((0, 0), (0, 0))"
  by (simp add: find_line_endpoints_def LD_find_line_endpoints_def)

theorem find_line_endpoints_degenerate_witness:
  "length ([] :: contour) < 2 \<and> length [(5, 7) :: point] < 2
   \<and> find_line_endpoints demo_cv [] = ((0, 0), (0, 0))
   \<and> LD_find_line_endpoints demo_cv [] = ((0, 0), (0, 0))
   \<and> find_line_endpoints demo_cv [(5, 7)] = ((0, 0), (0, 0))
   \<and> LD_find_line_endpoints demo_cv [(5, 7)] = ((0, 0), (0, 0))"
  using find_line_endpoints_degenerate [of "[]" demo_cv]
        find_line_endpoints_degenerate [of "[(5, 7)]" demo_cv]
  by simp

subsection \<open>Arithmetic without wrap-around\<close>

lemma i32_id: "- (2 ^ 31) \<le> v \<Longrightarrow> v < 2 ^ 31 \<Longrightarrow> i32 v = v"
  by (simp add: i32_def)

lemma abs_le_square: "\<bar>a::int\<bar> \<le> a * a"
proof (cases "a = 0")
  case True then show ?thesis by simp
next
  case False
  then have "1 \<le> \<bar>a\<bar>" by simp
  then have "\<bar>a\<bar> * 1 \<le> \<bar>a\<bar> * \<bar>a\<bar>" by (intro mult_left_mono) simp_all
  then show ?thesis by (simp add: abs_mult_self_eq)
qed

lemma sq_sum32_exact:
  assumes "sq_dist p q < 2 ^ 31"
  shows "sq_sum32 p q = sq_dist p q"
proof -
  define a where "a = fst p - fst q"
  define b where "b = snd p - snd q"
  have s: "a * a + b * b < 2 ^ 31"
    using assms by (simp add: sq_dist_def a_def b_def power2_eq_square)
  have a0: "0 \<le> a * a" and b0: "0 \<le> b * b" by simp_all
  have aa: "a * a < 2 ^ 31" and bb: "b * b < 2 ^ 31" using s a0 b0 by linarith+
  have "\<bar>a\<bar> < 2 ^ 31" "\<bar>b\<bar> < 2 ^ 31"
    using abs_le_square [of a] abs_le_square [of b] aa bb by linarith+
  then have ia: "i32 a = a" and ib: "i32 b = b"
    by (auto intro!: i32_id)
  have iaa: "i32 (a * a) = a * a"
    using a0 aa by (intro i32_id) linarith+
  have ibb: "i32 (b * b) = b * b"
    using b0 bb by (intro i32_id) linarith+
  have "i32 (a * a + b * b) = a * a + b * b"
    using s a0 b0 by (intro i32_id) linarith+
  then show ?thesis
    by (simp add: sq_sum32_def sq_dist_def ia ib iaa ibb power2_eq_square
          flip: a_def b_def)
qed

lemma sq_dist_nonneg: "0 \<le> sq_dist p q"
  by (simp add: sq_dist_def)

lemma sq_dist_sym: "sq_dist p q = sq_dist q p"
  by (simp add: sq_dist_def power2_commute)

lemma sq_dist_self: "sq_dist p p = 0"
  by (simp add: sq_dist_def)

lemma euclid_nonneg: "0 \<le> euclid p q"
  by (simp add: euclid_def sq_dist_nonneg)

lemma euclid_sym: "euclid p q = euclid q p"
  by (simp add: euclid_def sq_dist_sym)

lemma euclid_self: "euclid p p = 0"
  by (simp add: euclid_def sq_dist_self)

lemma euclid_le_iff: "(euclid p q \<le> euclid a b) = (sq_dist p q \<le> sq_dist a b)"
  by (simp add: euclid_def)

lemma np_sqrt_exact:
  "sq_dist p q < 2 ^ 31 \<Longrightarrow> np_sqrt (sq_sum32 p q) = Some (euclid p q)"
  using sq_dist_nonneg [of p q]
  by (simp add: sq_sum32_exact np_sqrt_def euclid_def not_less)

subsection \<open>The loops keep the farthest pair seen\<close>

lemma inner_loop_inv:
  assumes "\<forall>q \<in> set rest. sq_dist pt1 q < 2 ^ 31"
    and "pt1 \<in> A" and "set rest \<subseteq> A"
    and "m \<le> euclid a b" and "a \<in> A" and "b \<in> A"
    and "inner_loop pt1 rest (m, a, b) = (m', a', b')"
  shows "m \<le> m' \<and> m' \<le> euclid a' b' \<and> a' \<in> A \<and> b' \<in> A
         \<and> (\<forall>q \<in> set rest. euclid pt1 q \<le> m')"
  using assms
proof (induction rest arbitrary: m a b)
  case Nil
  then show ?case by simp
next
  case (Cons pt2 rest)
  have e: "np_sqrt (sq_sum32 pt1 pt2) = Some (euclid pt1 pt2)"
    using Cons.prems(1) by (simp add: np_sqrt_exact)
  show ?case
  proof (cases "euclid pt1 pt2 > m")
    case True
    then have r: "inner_loop pt1 rest (euclid pt1 pt2, pt1, pt2) = (m', a', b')"
      using Cons.prems(7) e by simp
    have "euclid pt1 pt2 \<le> m' \<and> m' \<le> euclid a' b' \<and> a' \<in> A \<and> b' \<in> A
         \<and> (\<forall>q \<in> set rest. euclid pt1 q \<le> m')"
      using Cons.prems by (intro Cons.IH [OF _ _ _ _ _ _ r]) auto
    with True show ?thesis by auto
  next
    case False
    then have r: "inner_loop pt1 rest (m, a, b) = (m', a', b')"
      using Cons.prems(7) e by simp
    have "m \<le> m' \<and> m' \<le> euclid a' b' \<and> a' \<in> A \<and> b' \<in> A
         \<and> (\<forall>q \<in> set rest. euclid pt1 q \<le> m')"
      using Cons.prems by (intro Cons.IH [OF _ _ _ _ _ _ r]) auto
    with False show ?thesis by auto
  qed
qed

lemma outer_loop_inv:
  assumes "\<forall>p \<in> set hs. \<forall>q \<in> set hs. sq_dist p q < 2 ^ 31"
    and "set hs \<subseteq> A"
    and "0 \<le> m" and "m \<le> euclid a b" and "a \<in> A" and "b \<in> A"
    and "outer_loop hs (m, a, b) = (m', a', b')"
  shows "m \<le> m' \<and> m' \<le> euclid a' b' \<and> a' \<in> A \<and> b' \<in> A
         \<and> (\<forall>p \<in> set hs. \<forall>q \<in> set hs. euclid p q \<le> m')"
  using assms
proof (induction hs arbitrary: m a b)
  case Nil
  then show ?case by simp
next
  case (Cons pt1 rest)
  obtain m1 a1 b1 where s1: "inner_loop pt1 rest (m, a, b) = (m1, a1, b1)"
    by (metis prod_cases3)
  have i: "m \<le> m1 \<and> m1 \<le> euclid a1 b1 \<and> a1 \<in> A \<and> b1 \<in> A
         \<and> (\<forall>q \<in> set rest. euclid pt1 q \<le> m1)"
    using Cons.prems by (intro inner_loop_inv [OF _ _ _ _ _ _ s1]) auto
  have r: "outer_loop rest (m1, a1, b1) = (m', a', b')"
    using Cons.prems(7) s1 by simp
  have o: "m1 \<le> m' \<and> m' \<le> euclid a' b' \<and> a' \<in> A \<and> b' \<in> A
         \<and> (\<forall>p \<in> set rest. \<forall>q \<in> set rest. euclid p q \<le> m')"
    using Cons.prems i by (intro Cons.IH [OF _ _ _ _ _ _ r]) auto
  have z: "0 \<le> m'" using Cons.prems(3) i o by linarith
  have "euclid p q \<le> m'" if pq: "p \<in> set (pt1 # rest)" "q \<in> set (pt1 # rest)" for p q
  proof -
    consider "p = pt1" "q = pt1" | "p = pt1" "q \<in> set rest" | "p \<in> set rest" "q = pt1"
      | "p \<in> set rest" "q \<in> set rest"
      using pq by auto
    then show ?thesis
    proof cases
      case 1 then show ?thesis using z by (simp add: euclid_self)
    next
      case 2 then show ?thesis using i o by force
    next
      case 3 then show ?thesis using i o euclid_sym [of p q] by force
    next
      case 4 then show ?thesis using o by blast
    qed
  qed
  with i o show ?case by auto
qed

lemma pairwise_search_max:
  assumes ne: "c \<noteq> []" and sub: "set hs \<subseteq> set c" and fits: "fits_int32 c"
  shows "case pairwise_search hs c of (a, b) \<Rightarrow>
           a \<in> set c \<and> b \<in> set c \<and> (\<forall>p \<in> set hs. \<forall>q \<in> set hs. sq_dist p q \<le> sq_dist a b)"
proof -
  obtain m a b where s: "outer_loop hs (0, hd c, last c) = (m, a, b)"
    by (metis prod_cases3)
  have f: "\<forall>p \<in> set hs. \<forall>q \<in> set hs. sq_dist p q < 2 ^ 31"
    using sub fits unfolding fits_int32_def by blast
  have "0 \<le> m \<and> m \<le> euclid a b \<and> a \<in> set c \<and> b \<in> set c
         \<and> (\<forall>p \<in> set hs. \<forall>q \<in> set hs. euclid p q \<le> m)"
    using ne by (intro outer_loop_inv [OF f sub _ _ _ _ s]) (simp_all add: euclid_nonneg)
  then have "a \<in> set c \<and> b \<in> set c \<and> (\<forall>p \<in> set hs. \<forall>q \<in> set hs. euclid p q \<le> euclid a b)"
    by force
  then show ?thesis
    by (simp add: pairwise_search_def s euclid_le_iff)
qed

lemma find_line_endpoints_search:
  "2 \<le> length c \<Longrightarrow>
   find_line_endpoints cv c = pairwise_search (if length c > 4 then convexHull cv c else c) c"
  "LD_find_line_endpoints cv c = find_line_endpoints cv c"
  by (auto simp: find_line_endpoints_def LD_find_line_endpoints_def pairwise_search_def Let_def
        split: prod.splits)

subsection \<open>The farthest pair lies on the hull\<close>

lemma weighted_square_le:
  fixes w u :: "nat \<Rightarrow> real"
  assumes w0: "\<forall>i < n. 0 \<le> w i" and w1: "(\<Sum>i < n. w i) = 1"
  shows "(\<Sum>i < n. w i * u i)\<^sup>2 \<le> (\<Sum>i < n. w i * (u i)\<^sup>2)"
proof -
  define m where "m = (\<Sum>i < n. w i * u i)"
  have "0 \<le> (\<Sum>i < n. w i * (u i - m)\<^sup>2)"
    using w0 by (intro sum_nonneg) simp
  also have "(\<Sum>i < n. w i * (u i - m)\<^sup>2)
       = (\<Sum>i < n. w i * (u i)\<^sup>2 - 2 * m * (w i * u i) + m\<^sup>2 * w i)"
    by (intro sum.cong refl) (simp add: power2_eq_square algebra_simps)
  also have "\<dots> = (\<Sum>i < n. w i * (u i)\<^sup>2) - 2 * m * (\<Sum>i < n. w i * u i)
                    + m\<^sup>2 * (\<Sum>i < n. w i)"
    by (simp add: sum.distrib sum_subtractf sum_distrib_left)
  also have "\<dots> = (\<Sum>i < n. w i * (u i)\<^sup>2) - m\<^sup>2"
    by (simp add: w1 flip: m_def) (simp add: power2_eq_square)
  finally show ?thesis by (simp add: m_def)
qed

lemma far_from_combination:
  fixes w hx hy :: "nat \<Rightarrow> real"
  assumes w0: "\<forall>i < n. 0 \<le> w i" and w1: "(\<Sum>i < n. w i) = 1"
    and qx: "qx = (\<Sum>i < n. w i * hx i)" and qy: "qy = (\<Sum>i < n. w i * hy i)"
    and far: "\<forall>i < n. (ax - hx i)\<^sup>2 + (ay - hy i)\<^sup>2 \<le> M"
  shows "(ax - qx)\<^sup>2 + (ay - qy)\<^sup>2 \<le> M"
proof -
  have one: "(\<Sum>i < n. w i * v) = v" for v :: real
    using w1 by (simp flip: sum_distrib_right)
  have dx: "ax - qx = (\<Sum>i < n. w i * (ax - hx i))"
    by (simp add: qx right_diff_distrib sum_subtractf one)
  have dy: "ay - qy = (\<Sum>i < n. w i * (ay - hy i))"
    by (simp add: qy right_diff_distrib sum_subtractf one)
  have "(ax - qx)\<^sup>2 + (ay - qy)\<^sup>2
        \<le> (\<Sum>i < n. w i * (ax - hx i)\<^sup>2) + (\<Sum>i < n. w i * (ay - hy i)\<^sup>2)"
    unfolding dx dy
    using weighted_square_le [OF w0 w1, of "\<lambda>i. ax - hx i"]
          weighted_square_le [OF w0 w1, of "\<lambda>i. ay - hy i"]
    by linarith
  also have "\<dots> = (\<Sum>i < n. w i * ((ax - hx i)\<^sup>2 + (ay - hy i)\<^sup>2))"
    by (simp add: sum.distrib algebra_simps)
  also have "\<dots> \<le> (\<Sum>i < n. w i * M)"
    using w0 far by (intro sum_mono mult_left_mono) simp_all
  also have "\<dots> = M"
    by (rule one)
  finally show ?thesis .
qed

lemma real_sq_dist:
  "real_of_int (sq_dist p q)
     = (real_of_int (fst p) - real_of_int (fst q))\<^sup>2 + (real_of_int (snd p) - real_of_int (snd q))\<^sup>2"
  by (simp add: sq_dist_def)

lemma comb_near:
  assumes c: "convex_comb hs w q"
    and far: "\<forall>h \<in> set hs. sq_dist a h \<le> M"
  shows "sq_dist a q \<le> M"
proof -
  have "\<forall>i < length hs. (real_of_int (fst a) - real_of_int (fst (hs ! i)))\<^sup>2
            + (real_of_int (snd a) - real_of_int (snd (hs ! i)))\<^sup>2 \<le> real_of_int M"
  proof (intro allI impI)
    fix i assume "i < length hs"
    then have "sq_dist a (hs ! i) \<le> M" using far by simp
    then have "real_of_int (sq_dist a (hs ! i)) \<le> real_of_int M" by linarith
    then show "(real_of_int (fst a) - real_of_int (fst (hs ! i)))\<^sup>2
            + (real_of_int (snd a) - real_of_int (snd (hs ! i)))\<^sup>2 \<le> real_of_int M"
      by (simp only: real_sq_dist)
  qed
  then have "(real_of_int (fst a) - real_of_int (fst q))\<^sup>2
            + (real_of_int (snd a) - real_of_int (snd q))\<^sup>2 \<le> real_of_int M"
    using c unfolding convex_comb_def
    by (intro far_from_combination [where w = w and n = "length hs"
          and hx = "\<lambda>i. real_of_int (fst (hs ! i))" and hy = "\<lambda>i. real_of_int (snd (hs ! i))"])
       auto
  then have "real_of_int (sq_dist a q) \<le> real_of_int M"
    by (simp only: real_sq_dist)
  then show ?thesis by linarith
qed

lemma hull_diameter:
  assumes h: "is_convex_hull hs c"
    and far: "\<forall>p \<in> set hs. \<forall>q \<in> set hs. sq_dist p q \<le> M"
    and p: "p \<in> set c" and q: "q \<in> set c"
  shows "sq_dist p q \<le> M"
proof -
  obtain wp where wp: "convex_comb hs wp p"
    using h p unfolding is_convex_hull_def by blast
  obtain wq where wq: "convex_comb hs wq q"
    using h q unfolding is_convex_hull_def by blast
  have "\<forall>h \<in> set hs. sq_dist h q \<le> M"
    using far wq by (auto intro: comb_near)
  then have "\<forall>h \<in> set hs. sq_dist q h \<le> M"
    by (simp add: sq_dist_sym)
  then show ?thesis
    using comb_near [OF wp, of q M] by (simp add: sq_dist_sym)
qed

subsection \<open>Comparing square roots\<close>

lemma less_sqrt_iff: "0 \<le> a \<Longrightarrow> (a < sqrt b) = (a\<^sup>2 < b)"
  by (metis real_sqrt_abs abs_of_nonneg real_sqrt_less_iff)

lemma sqrt_less_iff: "0 \<le> a \<Longrightarrow> (sqrt b < a) = (b < a\<^sup>2)"
  by (metis real_sqrt_abs abs_of_nonneg real_sqrt_less_iff)

lemma le_sqrt_iff: "0 \<le> a \<Longrightarrow> (a \<le> sqrt b) = (a\<^sup>2 \<le> b)"
  by (metis real_sqrt_abs abs_of_nonneg real_sqrt_le_iff)

lemma sqrt_le_iff: "0 \<le> a \<Longrightarrow> (sqrt b \<le> a) = (b \<le> a\<^sup>2)"
  by (metis real_sqrt_abs abs_of_nonneg real_sqrt_le_iff)

lemmas sqrt_cmp = less_sqrt_iff sqrt_less_iff le_sqrt_iff sqrt_le_iff

subsection \<open>The farthest pair\<close>

text \<open>
  C3, as stated, fails where the 32-bit arithmetic wraps around: on the boundary
  \<open>(0, 0), (46341, 0), (1, 0)\<close> the square of 46341 is negative as an \<open>int32\<close>, its root
  is NaN, the pair is skipped, and the pair returned is at distance 46340.
\<close>

theorem find_line_endpoints_overflow:
  "find_line_endpoints demo_cv wide_contour = ((46341, 0), (1, 0))
   \<and> euclid (46341, 0) (1, 0) < euclid (0, 0) (46341, 0)
   \<and> (0, 0) \<in> set wide_contour \<and> (46341, 0) \<in> set wide_contour
   \<and> 2 \<le> length wide_contour"
  by (simp add: find_line_endpoints_def wide_contour_def np_sqrt_def sq_sum32_def i32_def
        euclid_def sq_dist_def sqrt_cmp)

text \<open>
  C3, amended. For a boundary of at least two points whose squared distances fit a signed
  32-bit integer, and with \<open>cv2.convexHull\<close> returning a hull of the boundary, the endpoints
  are boundary points at the greatest distance of any two boundary points. For more than
  four points the search runs over the hull, and the distance found is the one the search
  over the raw points finds. The copy in \<open>main.py\<close> returns the same pair.
\<close>

theorem find_line_endpoints_diameter:
  assumes len: "2 \<le> length c" and fits: "fits_int32 c"
    and hull: "4 < length c \<longrightarrow> is_convex_hull (convexHull cv c) c"
  shows "case find_line_endpoints cv c of (a, b) \<Rightarrow>
           a \<in> set c \<and> b \<in> set c
           \<and> (\<forall>p \<in> set c. \<forall>q \<in> set c. euclid p q \<le> euclid a b)
           \<and> (4 < length c \<longrightarrow>
                 (a, b) = pairwise_search (convexHull cv c) c
                 \<and> (case pairwise_search c c of (a', b') \<Rightarrow> euclid a b = euclid a' b'))
           \<and> LD_find_line_endpoints cv c = (a, b)"
proof -
  have ne: "c \<noteq> []" using len by auto
  obtain a' b' where raw: "pairwise_search c c = (a', b')" by (cases "pairwise_search c c")
  have raw_max: "a' \<in> set c \<and> b' \<in> set c \<and> (\<forall>p \<in> set c. \<forall>q \<in> set c. sq_dist p q \<le> sq_dist a' b')"
    using pairwise_search_max [OF ne subset_refl fits] by (simp add: raw)
  obtain a b where r: "find_line_endpoints cv c = (a, b)" by (cases "find_line_endpoints cv c")
  show ?thesis
  proof (cases "4 < length c")
    case False
    then have "(a, b) = (a', b')"
      using find_line_endpoints_search(1) [OF len, of cv] r raw by simp
    then show ?thesis
      using raw_max False r by (simp add: find_line_endpoints_search(2) euclid_le_iff)
  next
    case True
    then have h: "is_convex_hull (convexHull cv c) c" using hull by simp
    have s: "pairwise_search (convexHull cv c) c = (a, b)"
      using find_line_endpoints_search(1) [OF len, of cv] r True by simp
    have sub: "set (convexHull cv c) \<subseteq> set c" using h by (simp add: is_convex_hull_def)
    have m: "a \<in> set c \<and> b \<in> set c
        \<and> (\<forall>p \<in> set (convexHull cv c). \<forall>q \<in> set (convexHull cv c). sq_dist p q \<le> sq_dist a b)"
      using pairwise_search_max [OF ne sub fits] by (simp add: s)
    have all: "\<forall>p \<in> set c. \<forall>q \<in> set c. sq_dist p q \<le> sq_dist a b"
      using hull_diameter [OF h] m by blast
    have "sq_dist a b \<le> sq_dist a' b'" "sq_dist a' b' \<le> sq_dist a b"
      using raw_max m all by blast+
    then have "euclid a b = euclid a' b'" by (simp add: euclid_def)
    then show ?thesis
      using m all True r s raw by (simp add: find_line_endpoints_search(2) euclid_le_iff)
  qed
qed

lemma sum_lessThan_5: "(\<Sum>i < (5::nat). f i) = f 0 + f 1 + f 2 + f 3 + (f 4 :: real)"
  by (simp add: eval_nat_numeral)

lemma bent_hull_ok: "is_convex_hull bent_hull bent_contour"
proof -
  have k: "\<exists>w. convex_comb bent_hull w (bent_hull ! k)" if "k < 5" for k
  proof
    show "convex_comb bent_hull (\<lambda>i. if i = k then 1 else 0) (bent_hull ! k)"
      using that
      by (auto simp: convex_comb_def bent_hull_def sum_lessThan_5 eval_nat_numeral less_Suc_eq)
  qed
  have m: "convex_comb bent_hull (\<lambda>i. if i = 1 \<or> i = 4 then 1 / 2 else 0) (2, 1)"
    by (simp add: convex_comb_def bent_hull_def sum_lessThan_5)
  have "\<exists>w. convex_comb bent_hull w p" if pc: "p \<in> set bent_contour" for p
  proof -
    consider "p = bent_hull ! 0" | "p = bent_hull ! 1" | "p = bent_hull ! 2" | "p = (2, 1)"
      | "p = bent_hull ! 3" | "p = bent_hull ! 4"
      using pc by (auto simp: bent_contour_def bent_hull_def)
    then show ?thesis
      using k [of 0] k [of 1] k [of 2] k [of 3] k [of 4] m by cases auto
  qed
  then show ?thesis
    by (auto simp: is_convex_hull_def bent_hull_def bent_contour_def)
qed

theorem find_line_endpoints_diameter_witness:
  "2 \<le> length bent_contour \<and> fits_int32 bent_contour \<and> 4 < length bent_contour
   \<and> is_convex_hull (convexHull (demo_cv\<lparr>convexHull := (\<lambda>c. bent_hull)\<rparr>) bent_contour) bent_contour
   \<and> find_line_endpoints (demo_cv\<lparr>convexHull := (\<lambda>c. bent_hull)\<rparr>) bent_contour = ((0, 2), (4, 0))
   \<and> euclid (2, 1) (0, 0) \<le> euclid (0, 2) (4, 0)
   \<and> pairwise_search bent_contour bent_contour = ((0, 2), (4, 0))"
proof -
  let ?cv = "demo_cv\<lparr>convexHull := (\<lambda>c. bent_hull)\<rparr>"
  have len: "2 \<le> length bent_contour" "4 < length bent_contour"
    by (simp_all add: bent_contour_def)
  have fits: "fits_int32 bent_contour"
    by (simp add: fits_int32_def bent_contour_def sq_dist_def)
  have hull: "is_convex_hull (convexHull ?cv bent_contour) bent_contour"
    using bent_hull_ok by simp
  have ev: "find_line_endpoints ?cv bent_contour = ((0, 2), (4, 0))"
    by (simp add: find_line_endpoints_def bent_contour_def bent_hull_def np_sqrt_def
          sq_sum32_def i32_def sqrt_cmp)
  have raw: "pairwise_search bent_contour bent_contour = ((0, 2), (4, 0))"
    by (simp add: pairwise_search_def bent_contour_def np_sqrt_def sq_sum32_def i32_def sqrt_cmp)
  have mem: "(2, 1) \<in> set bent_contour" "(0, 0) \<in> set bent_contour"
    by (simp_all add: bent_contour_def)
  from find_line_endpoints_diameter [of bent_contour ?cv, OF len(1) fits] hull
  have "\<forall>p \<in> set bent_contour. \<forall>q \<in> set bent_contour. euclid p q \<le> euclid (0, 2) (4, 0)"
    unfolding ev by simp
  with mem have "euclid (2, 1) (0, 0) \<le> euclid (0, 2) (4, 0)" by blast
  with len fits hull ev raw show ?thesis by blast
qed

end
